theory Spec2Isabelle
  imports Main
begin

section \<open>Python values and exceptions\<close>

text \<open>
  The exceptions that the modelled code can raise. \<open>ValueError\<close> carries its message;
  \<open>TypeError\<close>, \<open>KeyError\<close> and \<open>IndexError\<close> are raised by the interpreter itself
  (an unsupported comparison, a missing dictionary key, a list index out of range).
\<close>

datatype error = ValueError string | TypeError | KeyError | IndexError

text \<open>
  The \<open>time_steps\<close> argument is dynamically typed: the code expects an int but has a
  conversion step for anything else. Two kinds of argument are modelled, an int and a
  str.
\<close>

datatype pyval = PyInt int | PyStr string

text \<open>
  Reading \<open>xs[i]\<close>: an index from 0 to \<open>len(xs) - 1\<close> counts from the front, one
  from \<open>-len(xs)\<close> to \<open>-1\<close> from the back, and any other raises IndexError.
\<close>

definition py_index :: "'a list \<Rightarrow> int \<Rightarrow> error + 'a" where
  "py_index xs i =
     (if 0 \<le> i \<and> i < int (length xs) then Inr (xs ! nat i)
      else if i < 0 \<and> - int (length xs) \<le> i then Inr (xs ! nat (int (length xs) + i))
      else Inl IndexError)"

text \<open>
  \<open>dict(pairs)\<close>: the pairs are inserted from left to right, a later pair replacing
  an earlier one with the same key.
\<close>

definition dict_of :: "('k \<times> 'v) list \<Rightarrow> ('k \<rightharpoonup> 'v)" where
  "dict_of kvs = foldl (\<lambda>m (k, v). m(k \<mapsto> v)) Map.empty kvs"

text \<open>
  \<open>str(r)\<close> for the remainder \<open>r\<close> of a division by 3 (so \<open>r\<close> is 0, 1 or 2): a
  string of one character.
\<close>

definition str_digit :: "int \<Rightarrow> string" where
  "str_digit r = (if r = 0 then ''0'' else if r = 1 then ''1'' else ''2'')"

text \<open>
  \<open>int(c)\<close> for a string of one character \<open>c\<close>: the value of a decimal digit, a
  ValueError for any other character.
\<close>

definition int_of_char :: "char \<Rightarrow> error + int" where
  "int_of_char c =
     (let n = (of_char c :: nat)
      in if 48 \<le> n \<and> n \<le> 57 then Inr (int n - 48)
         else Inl (ValueError ''invalid literal for int() with base 10''))"

text \<open>\<open>map(int, s)\<close> consumed to its end; the first failing conversion raises.\<close>

fun map_int :: "string \<Rightarrow> error + int list" where
  "map_int [] = Inr []"
| "map_int (c # cs) =
     (case int_of_char c of
        Inl e \<Rightarrow> Inl e
      | Inr d \<Rightarrow> (case map_int cs of Inl e \<Rightarrow> Inl e | Inr ds \<Rightarrow> Inr (d # ds)))"

section \<open>The rule decoder\<close>

type_synonym neighborhood = "int \<times> int"
type_synonym table = "neighborhood \<rightharpoonup> int"

definition neighborhoods :: "neighborhood list" where
  "neighborhoods = [(0,0), (0,1), (0,2), (1,0), (1,1), (1,2), (2,0), (2,1), (2,2)]"

text \<open>
  The digit loop, shared by both implementations (lines 35-38 and 124-127):
  \<^verbatim>\<open>
  while rule_number > 0:
      rule_number, r = divmod(rule_number,3)
      tern_nums.append(str(r))
  \<close>
  Python's \<open>divmod\<close> rounds towards minus infinity, as \<open>div\<close> and \<open>mod\<close> on \<open>int\<close> do.
\<close>

function tern_loop :: "int \<Rightarrow> string list \<Rightarrow> string list" where
  "tern_loop rule_number tern_nums =
     (if rule_number > 0
      then tern_loop (rule_number div 3) (tern_nums @ [str_digit (rule_number mod 3)])
      else tern_nums)"
  by pat_completeness auto
termination
  by (relation "measure (\<lambda>(rule_number, tern_nums). nat rule_number)") auto

declare tern_loop.simps [simp del]

text \<open>
  Lines 128-133 of \<open>three_state_lookup_table\<close>: the digits joined most significant
  first, then right-aligned in a field of width 9 filled with the character 0. A
  string of 9 or more characters is left as it is.
\<close>

definition format_in_ternary :: "int \<Rightarrow> string" where
  "format_in_ternary rule_number =
     (let tern_num = concat (rev (tern_loop rule_number []))
      in replicate (9 - length tern_num) (CHR ''0'') @ tern_num)"

text \<open>
  \<open>three_state_lookup_table\<close> (lines 103-135). The argument is an int, so the
  \<open>isinstance\<close> test passes and the range test decides. The table is
  \<open>dict(zip(neighborhoods, map(int, reversed(in_ternary))))\<close>; \<open>zip\<close> stops at the
  shorter of its arguments.
\<close>

definition three_state_lookup_table :: "int \<Rightarrow> error + table" where
  "three_state_lookup_table rule_number =
     (if rule_number < 0 \<or> rule_number > 19682
      then Inl (ValueError ''rule_number must be an int between 0 and 19682, inclusive'')
      else (case map_int (rev (format_in_ternary rule_number)) of
              Inl e \<Rightarrow> Inl e
            | Inr outs \<Rightarrow> Inr (dict_of (zip neighborhoods outs))))"

text \<open>\<open>d[key]\<close>: a missing key raises KeyError.\<close>

definition dict_get :: "('k \<rightharpoonup> 'v) \<Rightarrow> 'k \<Rightarrow> error + 'v" where
  "dict_get d key = (case d key of None \<Rightarrow> Inl KeyError | Some v \<Rightarrow> Inr v)"

text \<open>
  The output that the table of a rule number gives for a neighborhood:
  \<open>three_state_lookup_table(rule_number)[neighborhood]\<close>, as lines 170 and 185 use it.
\<close>

definition lookup_output :: "int \<Rightarrow> neighborhood \<Rightarrow> error + int" where
  "lookup_output rule_number neighborhood =
     (case three_state_lookup_table rule_number of
        Inl e \<Rightarrow> Inl e
      | Inr lookup \<Rightarrow> dict_get lookup neighborhood)"

section \<open>The decoder of the script at the top of the file\<close>

text \<open>
  Lines 35-44, for any \<open>rule_number\<close> in place of the constant 8711: the digits are
  joined in the order the loop produced them and zeros are appended on the right.
  \<open>'0'*padding\<close> is the empty string for a negative \<open>padding\<close>.
\<close>

definition spaghetti_in_ternary :: "int \<Rightarrow> string" where
  "spaghetti_in_ternary rule_number =
     (let in_ternary = concat (tern_loop rule_number []);
          ternary_length = length in_ternary
      in if ternary_length \<noteq> 9
         then in_ternary @ replicate (nat (9 - int ternary_length)) (CHR ''0'')
         else in_ternary)"

text \<open>
  Lines 47-51: \<open>for i in range(9)\<close>, the table is updated with
  \<open>neighborhoods[i]\<close> mapped to \<open>in_ternary[i]\<close>. The values of this table are
  strings of one character, modelled by that character.
\<close>

fun spaghetti_table_loop ::
  "int list \<Rightarrow> string \<Rightarrow> (neighborhood \<rightharpoonup> char) \<Rightarrow> error + (neighborhood \<rightharpoonup> char)" where
  "spaghetti_table_loop [] in_ternary lookup_table = Inr lookup_table"
| "spaghetti_table_loop (i # rest) in_ternary lookup_table =
     (case py_index neighborhoods i of
        Inl e \<Rightarrow> Inl e
      | Inr key \<Rightarrow>
          (case py_index in_ternary i of
             Inl e \<Rightarrow> Inl e
           | Inr val \<Rightarrow> spaghetti_table_loop rest in_ternary (lookup_table(key \<mapsto> val))))"

text \<open>\<open>range(n)\<close> for a natural number \<open>n\<close>.\<close>

definition py_range :: "nat \<Rightarrow> int list" where
  "py_range n = map int [0..<n]"

definition spaghetti_lookup_table :: "int \<Rightarrow> error + (neighborhood \<rightharpoonup> char)" where
  "spaghetti_lookup_table rule_number =
     spaghetti_table_loop (py_range 9) (spaghetti_in_ternary rule_number) Map.empty"

text \<open>Line 65, where the script reads its table: \<open>int(lookup_table[neighborhood])\<close>.\<close>

definition spaghetti_output :: "int \<Rightarrow> neighborhood \<Rightarrow> error + int" where
  "spaghetti_output rule_number neighborhood =
     (case spaghetti_lookup_table rule_number of
        Inl e \<Rightarrow> Inl e
      | Inr lookup_table \<Rightarrow>
          (case dict_get lookup_table neighborhood of
             Inl e \<Rightarrow> Inl e
           | Inr val \<Rightarrow> int_of_char val))"

section \<open>The evolution engine\<close>

text \<open>
  The check of \<open>time_steps\<close> (lines 157-163 and 268-274):
  \<^verbatim>\<open>
  if time_steps < 0:
      raise ValueError("time_steps must be a non-negative integer")
  try:
      time_steps = int(time_steps)
  except ValueError:
      raise ValueError("time_steps must be a non-negative integer")
  \<close>
  For an int the comparison decides and \<open>int\<close> returns it unchanged. For a str the
  comparison \<open>time_steps < 0\<close> itself raises TypeError (Python 3 does not order str
  and int), so the conversion below it is never reached.
\<close>

fun check_time_steps :: "pyval \<Rightarrow> error + int" where
  "check_time_steps (PyInt n) =
     (if n < 0 then Inl (ValueError ''time_steps must be a non-negative integer'') else Inr n)"
| "check_time_steps (PyStr s) = Inl TypeError"

text \<open>
  One row from the previous one (lines 179-185 and 277-283, the same loop):
  \<^verbatim>\<open>
  new_configuration = []
  for i in range(length):
      neighborhood = (current_configuration[(i-1)],
                      current_configuration[i])
      new_configuration.append(lookup[neighborhood])
  \<close>
\<close>

fun new_configuration_loop ::
  "int list \<Rightarrow> table \<Rightarrow> int list \<Rightarrow> int list \<Rightarrow> error + int list" where
  "new_configuration_loop [] lookup current_configuration new_configuration =
     Inr new_configuration"
| "new_configuration_loop (i # rest) lookup current_configuration new_configuration =
     (case py_index current_configuration (i - 1) of
        Inl e \<Rightarrow> Inl e
      | Inr left \<Rightarrow>
          (case py_index current_configuration i of
             Inl e \<Rightarrow> Inl e
           | Inr self \<Rightarrow>
               (case dict_get lookup (left, self) of
                  Inl e \<Rightarrow> Inl e
                | Inr out \<Rightarrow>
                    new_configuration_loop rest lookup current_configuration
                      (new_configuration @ [out]))))"

definition new_configuration :: "table \<Rightarrow> nat \<Rightarrow> int list \<Rightarrow> error + int list" where
  "new_configuration lookup len current_configuration =
     new_configuration_loop (py_range len) lookup current_configuration []"

text \<open>
  The loop over \<open>range(time_steps)\<close> of \<open>three_state_spacetime_field\<close> (lines
  178-188), with lists as values: the new row becomes the current configuration and
  is appended to the field.
\<close>

fun evolve_loop ::
  "nat \<Rightarrow> table \<Rightarrow> nat \<Rightarrow> int list \<Rightarrow> int list list \<Rightarrow> error + int list list" where
  "evolve_loop 0 lookup len current_configuration spacetime_field = Inr spacetime_field"
| "evolve_loop (Suc n) lookup len current_configuration spacetime_field =
     (case new_configuration lookup len current_configuration of
        Inl e \<Rightarrow> Inl e
      | Inr new \<Rightarrow> evolve_loop n lookup len new (spacetime_field @ [new]))"

text \<open>The test \<open>i not in [0,1,2]\<close> over the cells of the initial condition.\<close>

definition bad_cell :: "int list \<Rightarrow> bool" where
  "bad_cell initial_condition = list_ex (\<lambda>i. i \<notin> set [0, 1, 2]) initial_condition"

text \<open>
  \<open>three_state_spacetime_field\<close> (lines 141-190) on list values: what the function
  returns, read at the moment it returns. The checks are in the order of the source:
  \<open>time_steps\<close>, the cells of the initial condition, the rule number.
\<close>

definition three_state_spacetime_field ::
  "int \<Rightarrow> int list \<Rightarrow> pyval \<Rightarrow> error + int list list" where
  "three_state_spacetime_field rule_number initial_condition time_steps =
     (case check_time_steps time_steps of
        Inl e \<Rightarrow> Inl e
      | Inr n \<Rightarrow>
          if bad_cell initial_condition
          then Inl (ValueError ''initial condition must be a list of 0s, 1s and 2s'')
          else (case three_state_lookup_table rule_number of
                  Inl e \<Rightarrow> Inl e
                | Inr lookup \<Rightarrow>
                    evolve_loop (nat n) lookup (length initial_condition)
                      initial_condition [initial_condition]))"

section \<open>The evolution engine on a store of list objects\<close>

text \<open>
  Python lists are objects: a variable holds a reference, and two references to one
  list see each other's updates. The store maps an address to the list that lives
  there; \<open>fresh\<close> is the next address not yet in use.
\<close>

type_synonym ref = nat

record store =
  objs :: "ref \<Rightarrow> int list"
  fresh :: ref

text \<open>A new list object holding \<open>xs\<close> (a list display, or \<open>.copy()\<close>).\<close>

definition alloc :: "store \<Rightarrow> int list \<Rightarrow> store \<times> ref" where
  "alloc h xs = (h\<lparr>objs := (objs h)(fresh h := xs), fresh := Suc (fresh h)\<rparr>, fresh h)"

text \<open>The caller's \<open>xs[i] = v\<close> on the list at address \<open>r\<close>.\<close>

definition setitem :: "store \<Rightarrow> ref \<Rightarrow> int \<Rightarrow> int \<Rightarrow> error + store" where
  "setitem h r i v =
     (if 0 \<le> i \<and> i < int (length (objs h r))
      then Inr (h\<lparr>objs := (objs h)(r := (objs h r)[nat i := v])\<rparr>)
      else if i < 0 \<and> - int (length (objs h r)) \<le> i
      then Inr (h\<lparr>objs := (objs h)(r := (objs h r)[nat (int (length (objs h r)) + i) := v])\<rparr>)
      else Inl IndexError)"

text \<open>
  The loop of lines 178-188 on the store. \<open>new_configuration\<close> is a new list, known
  to nobody else while it is filled; it is stored once complete, and the field holds
  its reference.
\<close>

fun evolve_loop_st ::
  "nat \<Rightarrow> table \<Rightarrow> nat \<Rightarrow> ref \<Rightarrow> ref list \<Rightarrow> store \<Rightarrow> error + (store \<times> ref list)" where
  "evolve_loop_st 0 lookup len current_configuration spacetime_field h =
     Inr (h, spacetime_field)"
| "evolve_loop_st (Suc n) lookup len current_configuration spacetime_field h =
     (case new_configuration lookup len (objs h current_configuration) of
        Inl e \<Rightarrow> Inl e
      | Inr new \<Rightarrow>
          (case alloc h new of
             (h', new_ref) \<Rightarrow>
               evolve_loop_st n lookup len new_ref (spacetime_field @ [new_ref]) h'))"

text \<open>
  \<open>three_state_spacetime_field\<close> on the store; \<open>initial_condition\<close> is the reference
  the caller passes. Lines 174-175:
  \<^verbatim>\<open>
  spacetime_field = [initial_condition]
  current_configuration = initial_condition.copy()
  \<close>
  The field's first entry is the caller's reference; only the current configuration
  is a copy. The result is the store and the references of the rows.
\<close>

definition three_state_spacetime_field_st ::
  "int \<Rightarrow> ref \<Rightarrow> pyval \<Rightarrow> store \<Rightarrow> error + (store \<times> ref list)" where
  "three_state_spacetime_field_st rule_number initial_condition time_steps h =
     (case check_time_steps time_steps of
        Inl e \<Rightarrow> Inl e
      | Inr n \<Rightarrow>
          if bad_cell (objs h initial_condition)
          then Inl (ValueError ''initial condition must be a list of 0s, 1s and 2s'')
          else (case three_state_lookup_table rule_number of
                  Inl e \<Rightarrow> Inl e
                | Inr lookup \<Rightarrow>
                    (case alloc h (objs h initial_condition) of
                       (h', current_configuration) \<Rightarrow>
                         evolve_loop_st (nat n) lookup (length (objs h initial_condition))
                           current_configuration [initial_condition] h')))"

text \<open>The rows of a field, read from the store.\<close>

definition read_field :: "store \<Rightarrow> ref list \<Rightarrow> int list list" where
  "read_field h spacetime_field = map (objs h) spacetime_field"

section \<open>The simulator class\<close>

text \<open>
  The attributes of \<open>three_state_CA\<close>; \<open>ca_length\<close> is the attribute \<open>_length\<close>. Lists are values
  here: what the attributes hold, as long as the caller leaves the list it passed to
  the constructor alone.
\<close>

record three_state_CA =
  lookup_table :: table
  initial :: "int list"
  spacetime :: "int list list"
  current_configuration :: "int list"
  ca_length :: nat

text \<open>\<open>__init__\<close> (lines 249-257): the cells are checked before the rule number.\<close>

definition CA_init :: "int \<Rightarrow> int list \<Rightarrow> error + three_state_CA" where
  "CA_init rule_number initial_condition =
     (if bad_cell initial_condition
      then Inl (ValueError ''initial condition must be a list of 0s, 1s, and 2s'')
      else (case three_state_lookup_table rule_number of
              Inl e \<Rightarrow> Inl e
            | Inr lookup \<Rightarrow>
                Inr \<lparr>lookup_table = lookup, initial = initial_condition,
                     spacetime = [initial_condition],
                     current_configuration = initial_condition,
                     ca_length = length initial_condition\<rparr>))"

text \<open>
  The loop of \<open>evolve\<close> (lines 276-286). A method that raises leaves the object as
  the statements before the raise made it, so the result is the exception, if any,
  together with the instance.
\<close>

fun CA_evolve_loop :: "nat \<Rightarrow> three_state_CA \<Rightarrow> error option \<times> three_state_CA" where
  "CA_evolve_loop 0 self = (None, self)"
| "CA_evolve_loop (Suc n) self =
     (case new_configuration (lookup_table self) (ca_length self) (current_configuration self) of
        Inl e \<Rightarrow> (Some e, self)
      | Inr new \<Rightarrow>
          CA_evolve_loop n
            (self\<lparr>current_configuration := new, spacetime := spacetime self @ [new]\<rparr>))"

definition evolve :: "three_state_CA \<Rightarrow> pyval \<Rightarrow> error option \<times> three_state_CA" where
  "evolve self time_steps =
     (case check_time_steps time_steps of
        Inl e \<Rightarrow> (Some e, self)
      | Inr n \<Rightarrow> CA_evolve_loop (nat n) self)"

section \<open>Properties of the rule decoder\<close>

text \<open>The accumulator of the digit loop only ever grows at its end.\<close>

lemma tern_loop_acc: "tern_loop r acc = acc @ tern_loop r []"
proof (induction "nat r" arbitrary: r acc rule: less_induct)
  case less
  show ?case
  proof (cases "r > 0")
    case True
    then have lt: "nat (r div 3) < nat r" by simp
    have "tern_loop r acc = tern_loop (r div 3) (acc @ [str_digit (r mod 3)])"
      using True by (simp add: tern_loop.simps [of r acc])
    also have "\<dots> = (acc @ [str_digit (r mod 3)]) @ tern_loop (r div 3) []"
      using less [OF lt] .
    also have "\<dots> = acc @ tern_loop (r div 3) [str_digit (r mod 3)]"
      using less [OF lt, of "[str_digit (r mod 3)]"] by simp
    finally show ?thesis using True by (simp add: tern_loop.simps [of r "[]"])
  next
    case False
    then show ?thesis by (simp add: tern_loop.simps)
  qed
qed

lemma tern_loop_pos:
  "0 < r \<Longrightarrow> tern_loop r [] = str_digit (r mod 3) # tern_loop (r div 3) []"
  using tern_loop_acc [of "r div 3" "[str_digit (r mod 3)]"]
  by (simp add: tern_loop.simps [of r "[]"])

lemma tern_loop_nonpos: "r \<le> 0 \<Longrightarrow> tern_loop r [] = []"
  by (simp add: tern_loop.simps)

lemma lsd_pos:
  "0 < r \<Longrightarrow> concat (tern_loop r []) = str_digit (r mod 3) @ concat (tern_loop (r div 3) [])"
  by (simp add: tern_loop_pos)

lemma length_str_digit: "length (str_digit d) = 1"
  by (simp add: str_digit_def)

lemma lsd_length: "0 \<le> r \<Longrightarrow> r < 3 ^ n \<Longrightarrow> length (concat (tern_loop r [])) \<le> n"
proof (induction n arbitrary: r)
  case 0
  then show ?case by (simp add: tern_loop_nonpos)
next
  case (Suc n)
  show ?case
  proof (cases "r = 0")
    case True
    then show ?thesis by (simp add: tern_loop_nonpos)
  next
    case False
    with Suc.prems have pos: "0 < r" by simp
    have "0 \<le> r div 3" using pos by simp
    moreover have "r div 3 < 3 ^ n" using Suc.prems(2) by simp
    ultimately have "length (concat (tern_loop (r div 3) [])) \<le> n" by (rule Suc.IH)
    then show ?thesis by (simp add: lsd_pos [OF pos] length_str_digit)
  qed
qed

lemma div3_pow: "(r::int) div 3 div 3 ^ k = r div 3 ^ Suc k"
  by (simp add: zdiv_zmult2_eq)

text \<open>The character the loop produces at place \<open>k\<close> is the digit of weight \<open>3 ^ k\<close>.\<close>

lemma lsd_nth:
  "k < length (concat (tern_loop r [])) \<Longrightarrow>
   concat (tern_loop r []) ! k = hd (str_digit ((r div 3 ^ k) mod 3))"
proof (induction k arbitrary: r)
  case 0
  then have pos: "0 < r" by (cases "0 < r") (simp_all add: tern_loop_nonpos)
  show ?case by (simp add: lsd_pos [OF pos] str_digit_def)
next
  case (Suc k)
  then have pos: "0 < r" by (cases "0 < r") (simp_all add: tern_loop_nonpos)
  from Suc.prems have "k < length (concat (tern_loop (r div 3) []))"
    by (simp add: lsd_pos [OF pos] length_str_digit)
  then have "concat (tern_loop (r div 3) []) ! k = hd (str_digit ((r div 3 div 3 ^ k) mod 3))"
    by (rule Suc.IH)
  moreover have "r div 3 div 3 ^ k = r div 3 ^ Suc k"
    by (rule div3_pow)
  ultimately show ?case
    by (simp add: lsd_pos [OF pos] nth_append length_str_digit)
qed

lemma lsd_beyond:
  "0 \<le> r \<Longrightarrow> length (concat (tern_loop r [])) \<le> k \<Longrightarrow> r div 3 ^ k = 0"
proof (induction k arbitrary: r)
  case 0
  then have "r = 0" by (cases "0 < r") (simp_all add: lsd_pos length_str_digit)
  then show ?case by simp
next
  case (Suc k)
  show ?case
  proof (cases "0 < r")
    case True
    have "0 \<le> r div 3" using True by simp
    moreover have "length (concat (tern_loop (r div 3) [])) \<le> k"
      using Suc.prems(2) by (simp add: lsd_pos [OF True] length_str_digit)
    ultimately have "r div 3 div 3 ^ k = 0" by (rule Suc.IH)
    then show ?thesis by (simp only: div3_pow)
  next
    case False
    with Suc.prems have "r = 0" by simp
    then show ?thesis by simp
  qed
qed

lemma map_rev_tern_loop: "map rev (tern_loop r []) = tern_loop r []"
proof (induction "nat r" arbitrary: r rule: less_induct)
  case less
  show ?case
  proof (cases "0 < r")
    case True
    then have "nat (r div 3) < nat r" by simp
    then have "map rev (tern_loop (r div 3) []) = tern_loop (r div 3) []" by (rule less)
    then show ?thesis by (simp add: tern_loop_pos [OF True] str_digit_def)
  next
    case False
    then show ?thesis by (simp add: tern_loop_nonpos)
  qed
qed

text \<open>
  Reversing the padded string gives back the loop's own order, zeros at the end.
\<close>

lemma rev_format_lsd:
  "rev (format_in_ternary r) =
   concat (tern_loop r []) @ replicate (9 - length (concat (tern_loop r []))) (CHR ''0'')"
  by (simp add: format_in_ternary_def rev_concat rev_map map_rev_tern_loop)

lemma upt9: "[0..<9] = [0, 1, 2, 3, 4, 5, 6, 7, 8]"
  by (simp add: upt_rec)

lemma rev_format_in_ternary:
  assumes "0 \<le> r" and "r < 3 ^ 9"
  shows "rev (format_in_ternary r) = map (\<lambda>k. hd (str_digit ((r div 3 ^ k) mod 3))) [0..<9]"
proof -
  let ?lsd = "concat (tern_loop r [])"
  let ?f = "\<lambda>k. hd (str_digit ((r div 3 ^ k) mod 3))"
  have len: "length ?lsd \<le> 9" using assms by (rule lsd_length)
  show ?thesis
  proof (rule nth_equalityI)
    show "length (rev (format_in_ternary r)) = length (map ?f [0..<9])"
      using len by (simp add: rev_format_lsd)
  next
    fix k assume "k < length (rev (format_in_ternary r))"
    then have k9: "k < 9" using len by (simp add: rev_format_lsd)
    show "rev (format_in_ternary r) ! k = map ?f [0..<9] ! k"
    proof (cases "k < length ?lsd")
      case True
      then show ?thesis using k9 by (simp add: rev_format_lsd nth_append lsd_nth del: upt_Suc)
    next
      case False
      then have "r div 3 ^ k = 0" using assms(1) by (simp add: lsd_beyond)
      then show ?thesis using False k9
        by (simp add: rev_format_lsd nth_append str_digit_def del: upt_Suc)
    qed
  qed
qed

lemma int_of_char_str_digit: "0 \<le> d \<Longrightarrow> d < 3 \<Longrightarrow> int_of_char (hd (str_digit d)) = Inr d"
  by (auto simp: int_of_char_def str_digit_def)

lemma map_int_digits:
  "(\<And>k. k \<in> set ks \<Longrightarrow> int_of_char (f k) = Inr (g k)) \<Longrightarrow>
   map_int (map f ks) = Inr (map g ks)"
  by (induction ks) simp_all

text \<open>The table of a rule number in range, with its nine outputs written out.\<close>

lemma lookup_table_eq:
  assumes "0 \<le> r" and "r \<le> 19682"
  shows "three_state_lookup_table r =
         Inr (dict_of (zip neighborhoods (map (\<lambda>k. (r div 3 ^ k) mod 3) [0..<9])))"
proof -
  have "r < 3 ^ 9" using assms(2) by simp
  with assms(1) have
    "rev (format_in_ternary r) = map (\<lambda>k. hd (str_digit ((r div 3 ^ k) mod 3))) [0..<9]"
    by (rule rev_format_in_ternary)
  moreover have "map_int (map (\<lambda>k. hd (str_digit ((r div 3 ^ k) mod 3))) [0..<9]) =
                 Inr (map (\<lambda>k. (r div 3 ^ k) mod 3) [0..<9])"
    by (rule map_int_digits) (simp add: int_of_char_str_digit)
  ultimately show ?thesis using assms by (simp add: three_state_lookup_table_def)
qed

lemma nat_less_9_cases:
  "k < 9 \<Longrightarrow> k = 0 \<or> k = 1 \<or> k = 2 \<or> k = 3 \<or> k = 4 \<or> k = 5 \<or> k = 6 \<or> k = 7 \<or> k = (8::nat)"
  by arith

lemma lookup_output_digit:
  assumes "0 \<le> r" and "r \<le> 19682" and "k < 9"
  shows "lookup_output r (neighborhoods ! k) = Inr ((r div 3 ^ k) mod 3)"
  using nat_less_9_cases [OF assms(3)]
  by (auto simp add: lookup_output_def dict_get_def lookup_table_eq [OF assms(1,2)]
        dict_of_def neighborhoods_def upt9)

lemma length_format_in_ternary:
  assumes "0 \<le> r" and "r \<le> 19682"
  shows "length (format_in_ternary r) = 9"
proof -
  have "r < 3 ^ 9" using assms(2) by simp
  with assms(1) have "length (rev (format_in_ternary r)) = 9"
    by (simp add: rev_format_in_ternary)
  then show ?thesis by simp
qed

lemma format_in_ternary_nth:
  assumes "0 \<le> r" and "r \<le> 19682" and "k < 9"
  shows "format_in_ternary r ! (8 - k) = hd (str_digit ((r div 3 ^ k) mod 3))"
proof -
  have lt: "r < 3 ^ 9" using assms(2) by simp
  have len: "length (format_in_ternary r) = 9" using assms(1,2) by (rule length_format_in_ternary)
  have "rev (format_in_ternary r) ! k = format_in_ternary r ! (8 - k)"
    using assms(3) len by (simp add: rev_nth)
  moreover have "rev (format_in_ternary r) ! k = hd (str_digit ((r div 3 ^ k) mod 3))"
    using assms(3) by (simp add: rev_format_in_ternary [OF assms(1) lt] del: upt_Suc)
  ultimately show ?thesis by simp
qed

text \<open>The script's string is the reversed string of the function, for every int.\<close>

lemma spaghetti_in_ternary_rev: "spaghetti_in_ternary r = rev (format_in_ternary r)"
proof -
  have "\<And>n::nat. nat (9 - int n) = 9 - n" by arith
  then show ?thesis by (simp add: spaghetti_in_ternary_def rev_format_lsd Let_def)
qed

lemma spaghetti_output_digit:
  assumes "0 \<le> r" and "r \<le> 19682" and "k < 9"
  shows "spaghetti_output r (neighborhoods ! k) = Inr ((r div 3 ^ k) mod 3)"
proof -
  have lt: "r < 3 ^ 9" using assms(2) by simp
  have s: "spaghetti_in_ternary r = map (\<lambda>k. hd (str_digit ((r div 3 ^ k) mod 3))) [0..<9]"
    by (simp only: spaghetti_in_ternary_rev rev_format_in_ternary [OF assms(1) lt])
  show ?thesis
    using nat_less_9_cases [OF assms(3)]
    by (auto simp add: spaghetti_output_def spaghetti_lookup_table_def s py_range_def upt9
          py_index_def neighborhoods_def dict_get_def int_of_char_str_digit)
qed

text \<open>Nine digits determine a number below \<open>3 ^ 9\<close>.\<close>

lemma digits_determine:
  "(\<And>k. k < n \<Longrightarrow> (a div 3 ^ k) mod 3 = (b div 3 ^ k) mod 3) \<Longrightarrow>
   (a::int) mod 3 ^ n = b mod 3 ^ n"
proof (induction n)
  case 0
  show ?case by simp
next
  case (Suc n)
  have "a mod 3 ^ n = b mod 3 ^ n" using Suc.prems by (intro Suc.IH) simp
  moreover have "(a div 3 ^ n) mod 3 = (b div 3 ^ n) mod 3" using Suc.prems by simp
  moreover have "\<And>x::int. x mod 3 ^ Suc n = 3 ^ n * ((x div 3 ^ n) mod 3) + x mod 3 ^ n"
    using zmod_zmult2_eq [of 3 _ "3 ^ n"] by (simp add: mult.commute)
  ultimately show ?case by simp
qed

section \<open>Claims about the rule decoder\<close>

text \<open>
  C1, as the code has it. The padded string of \<open>three_state_lookup_table\<close> has nine
  characters, most significant digit first, and the table reads it from its end:
  the neighborhood at place \<open>k\<close> of the lexicographic order gets the character at
  position \<open>8 - k\<close>, which is the digit of weight \<open>3 ^ k\<close>. So position 8 (least
  significant) is the output for (0,0), position 7 for (0,1), and so on through
  position 0 (most significant) for (2,2).
\<close>

theorem lookup_table_digit_order:
  assumes "0 \<le> r" and "r \<le> 19682" and "k < 9"
  shows "length (format_in_ternary r) = 9 \<and>
         lookup_output r (neighborhoods ! k) = int_of_char (format_in_ternary r ! (8 - k)) \<and>
         lookup_output r (neighborhoods ! k) = Inr ((r div 3 ^ k) mod 3)"
proof -
  have "int_of_char (format_in_ternary r ! (8 - k)) = Inr ((r div 3 ^ k) mod 3)"
    by (simp add: format_in_ternary_nth [OF assms] int_of_char_str_digit)
  then show ?thesis
    by (simp add: length_format_in_ternary [OF assms(1,2)] lookup_output_digit [OF assms])
qed

theorem lookup_table_digit_order_witness:
  "(0::int) \<le> 8711 \<and> (8711::int) \<le> 19682 \<and> (2::nat) < 9 \<and>
   length (format_in_ternary 8711) = 9 \<and>
   lookup_output 8711 (neighborhoods ! 2) = int_of_char (format_in_ternary 8711 ! 6) \<and>
   lookup_output 8711 (0, 2) = Inr 1"
  using lookup_table_digit_order [of 8711 2] by (auto simp add: neighborhoods_def)

text \<open>
  C1 as stated fails at rule number 1, whose padded string is 000000001: the
  character at position 0 is the digit 0, and the output for (0,0) is 1.
\<close>

theorem lookup_table_msd_first_counterexample:
  "format_in_ternary 1 = ''000000001'' \<and>
   neighborhoods ! 0 = (0, 0) \<and>
   int_of_char (format_in_ternary 1 ! 0) = Inr 0 \<and>
   lookup_output 1 (neighborhoods ! 0) = Inr 1 \<and>
   lookup_output 1 (neighborhoods ! 0) \<noteq> int_of_char (format_in_ternary 1 ! 0)"
proof -
  have t: "tern_loop 1 [] = [''1'']"
    by (simp add: tern_loop_pos tern_loop_nonpos str_digit_def)
  have f: "format_in_ternary 1 = ''000000001''"
    by (simp add: format_in_ternary_def t eval_nat_numeral)
  have "lookup_output 1 (neighborhoods ! 0) = Inr 1"
    using lookup_output_digit [of 1 0] by simp
  then show ?thesis
    by (simp add: f neighborhoods_def int_of_char_def)
qed

text \<open>
  C3, as the code has it. For every rule number in range and every neighborhood, the
  script's table and the table of \<open>three_state_lookup_table\<close> hold the same digit,
  the one of weight \<open>3 ^ k\<close> for the neighborhood at place \<open>k\<close>. The script stores
  the digit as a character and converts it when it reads the table.
\<close>

theorem spaghetti_table_agrees:
  assumes "0 \<le> r" and "r \<le> 19682" and "k < 9"
  shows "spaghetti_output r (neighborhoods ! k) = lookup_output r (neighborhoods ! k) \<and>
         spaghetti_output r (neighborhoods ! k) = Inr ((r div 3 ^ k) mod 3)"
  by (simp add: spaghetti_output_digit [OF assms] lookup_output_digit [OF assms])

theorem spaghetti_table_agrees_witness:
  "(0::int) \<le> 8711 \<and> (8711::int) \<le> 19682 \<and> (7::nat) < 9 \<and>
   spaghetti_output 8711 (2, 1) = lookup_output 8711 (2, 1) \<and>
   spaghetti_output 8711 (2, 1) = Inr 0"
  using spaghetti_table_agrees [of 8711 7] by (auto simp add: neighborhoods_def)

text \<open>
  C3 as stated is false: no rule number in range makes the two decoders give
  different outputs for a neighborhood.
\<close>

theorem spaghetti_table_differs_counterexample:
  "\<not> (\<exists>r k. 0 \<le> r \<and> r \<le> 19682 \<and> k < 9 \<and>
         spaghetti_output r (neighborhoods ! k) \<noteq> lookup_output r (neighborhoods ! k))"
  by (auto simp add: spaghetti_output_digit lookup_output_digit)

text \<open>
  C8. Two different rule numbers in range give tables that differ on at least one
  neighborhood.
\<close>

theorem lookup_table_injective:
  assumes "0 \<le> r1" and "r1 \<le> 19682" and "0 \<le> r2" and "r2 \<le> 19682" and "r1 \<noteq> r2"
  shows "\<exists>k<9. lookup_output r1 (neighborhoods ! k) \<noteq> lookup_output r2 (neighborhoods ! k)"
proof (rule ccontr)
  assume "\<not> ?thesis"
  then have same: "\<And>k. k < 9 \<Longrightarrow>
      lookup_output r1 (neighborhoods ! k) = lookup_output r2 (neighborhoods ! k)"
    by blast
  have "\<And>k. k < 9 \<Longrightarrow> (r1 div 3 ^ k) mod 3 = (r2 div 3 ^ k) mod 3"
  proof -
    fix k :: nat assume k: "k < 9"
    from same [OF k] show "(r1 div 3 ^ k) mod 3 = (r2 div 3 ^ k) mod 3"
      by (simp add: lookup_output_digit [OF assms(1,2) k] lookup_output_digit [OF assms(3,4) k])
  qed
  then have "r1 mod 3 ^ 9 = r2 mod 3 ^ 9" by (rule digits_determine)
  moreover have "r1 mod 3 ^ 9 = r1" using assms(1,2) by simp
  moreover have "r2 mod 3 ^ 9 = r2" using assms(3,4) by simp
  ultimately show False using assms(5) by simp
qed

theorem lookup_table_injective_witness:
  "(0::int) \<le> 5 \<and> (5::int) \<le> 19682 \<and> (0::int) \<le> 14 \<and> (14::int) \<le> 19682 \<and> (5::int) \<noteq> 14 \<and>
   (\<exists>k<9. lookup_output 5 (neighborhoods ! k) \<noteq> lookup_output 14 (neighborhoods ! k))"
  using lookup_table_injective [of 5 14] by simp

section \<open>Properties of the evolution engine\<close>

text \<open>The table of a rule number in range is total on cells and gives cells.\<close>

lemma lookup_table_total:
  assumes "0 \<le> r" and "r \<le> 19682" and "three_state_lookup_table r = Inr t"
    and "a \<in> {0, 1, 2}" and "b \<in> {0, 1, 2}"
  shows "\<exists>v. t (a, b) = Some v \<and> v \<in> {0, 1, 2}"
proof -
  have m: "\<And>x::int. x mod 3 = 0 \<or> x mod 3 = 1 \<or> x mod 3 = 2" by presburger
  have t: "t = dict_of (zip neighborhoods (map (\<lambda>k. (r div 3 ^ k) mod 3) [0..<9]))"
    using assms(3) by (simp add: lookup_table_eq [OF assms(1,2)])
  show ?thesis
    using assms(4,5) by (auto simp add: t dict_of_def neighborhoods_def upt9 m)
qed

lemma lookup_table_returns:
  "0 \<le> r \<Longrightarrow> r \<le> 19682 \<Longrightarrow> \<exists>t. three_state_lookup_table r = Inr t"
  by (simp add: lookup_table_eq)

text \<open>The two reads of a neighborhood, for an index inside the row.\<close>

lemma py_index_self: "i < length xs \<Longrightarrow> py_index xs (int i) = Inr (xs ! i)"
  by (simp add: py_index_def)

lemma left_index_bound:
  assumes "i < L"
  shows "nat ((int i - 1) mod int L) < L"
proof -
  have pos: "0 < int L" using assms by simp
  have "(int i - 1) mod int L < int L" using pos by (rule pos_mod_bound)
  moreover have "0 \<le> (int i - 1) mod int L" using pos by (rule pos_mod_sign)
  ultimately show ?thesis by linarith
qed

lemma py_index_left:
  assumes "i < length xs"
  shows "py_index xs (int i - 1) = Inr (xs ! nat ((int i - 1) mod int (length xs)))"
proof (cases "i = 0")
  case True
  have len: "Suc 0 \<le> length xs" using assms by (cases xs) simp_all
  have "0 < int (length xs)" using assms by (cases xs) simp_all
  then have "(- 1) mod int (length xs) = int (length xs) - 1"
    by (rule zmod_minus1)
  then show ?thesis using True len by (simp add: py_index_def)
next
  case False
  have "0 \<le> int i - 1" using False by simp
  moreover have "int i - 1 < int (length xs)" using assms by simp
  ultimately have "(int i - 1) mod int (length xs) = int i - 1"
    by (rule mod_pos_pos_trivial)
  then show ?thesis using False assms by (simp add: py_index_def)
qed

lemma new_configuration_loop_ok:
  assumes "\<And>a b. a \<in> set cur \<Longrightarrow> b \<in> set cur \<Longrightarrow> \<exists>v. t (a, b) = Some v"
    and "\<And>i. i \<in> set ixs \<Longrightarrow> i < length cur"
  shows "new_configuration_loop (map int ixs) t cur acc =
         Inr (acc @ map (\<lambda>i. the (t (cur ! nat ((int i - 1) mod int (length cur)), cur ! i))) ixs)"
  using assms(2)
proof (induction ixs arbitrary: acc)
  case Nil
  show ?case by simp
next
  case (Cons i ixs)
  have i: "i < length cur" using Cons.prems by simp
  let ?l = "cur ! nat ((int i - 1) mod int (length cur))"
  have "nat ((int i - 1) mod int (length cur)) < length cur" using i by (rule left_index_bound)
  then have "?l \<in> set cur" by (rule nth_mem)
  moreover have "cur ! i \<in> set cur" using i by (rule nth_mem)
  ultimately obtain v where v: "t (?l, cur ! i) = Some v" using assms(1) by blast
  have "new_configuration_loop (map int (i # ixs)) t cur acc =
        new_configuration_loop (map int ixs) t cur (acc @ [v])"
    by (simp add: py_index_left [OF i] py_index_self [OF i] dict_get_def v)
  also have "\<dots> = Inr ((acc @ [v]) @
      map (\<lambda>i. the (t (cur ! nat ((int i - 1) mod int (length cur)), cur ! i))) ixs)"
    using Cons.prems by (intro Cons.IH) simp
  finally show ?case by (simp add: v)
qed

text \<open>One step on a row of cells: it returns, and every cell is the table's output.\<close>

lemma new_configuration_ok:
  assumes "\<And>a b. a \<in> {0, 1, 2} \<Longrightarrow> b \<in> {0, 1, 2} \<Longrightarrow> \<exists>v. t (a, b) = Some v \<and> v \<in> {0, 1, 2}"
    and "set cur \<subseteq> {0, 1, 2}"
  shows "\<exists>new. new_configuration t (length cur) cur = Inr new \<and>
           length new = length cur \<and> set new \<subseteq> {0, 1, 2} \<and>
           (\<forall>i<length cur.
              t (cur ! nat ((int i - 1) mod int (length cur)), cur ! i) = Some (new ! i))"
proof -
  define f where "f = (\<lambda>i. the (t (cur ! nat ((int i - 1) mod int (length cur)), cur ! i)))"
  define new where "new = map f [0..<length cur]"
  have tot: "\<exists>v. t (a, b) = Some v" if "a \<in> set cur" and "b \<in> set cur" for a b
  proof -
    have "a \<in> {0, 1, 2}" and "b \<in> {0, 1, 2}" using that assms(2) by blast+
    then show ?thesis using assms(1) by blast
  qed
  have "new_configuration_loop (map int [0..<length cur]) t cur [] = Inr ([] @ new)"
    unfolding new_def f_def by (rule new_configuration_loop_ok) (simp_all add: tot)
  then have run: "new_configuration t (length cur) cur = Inr new"
    by (simp add: new_configuration_def py_range_def)
  have cell: "t (cur ! nat ((int i - 1) mod int (length cur)), cur ! i) = Some (f i) \<and>
              f i \<in> {0, 1, 2}" if "i < length cur" for i
  proof -
    have "nat ((int i - 1) mod int (length cur)) < length cur"
      using that by (rule left_index_bound)
    then have "cur ! nat ((int i - 1) mod int (length cur)) \<in> set cur" by (rule nth_mem)
    then have l: "cur ! nat ((int i - 1) mod int (length cur)) \<in> {0, 1, 2}"
      using assms(2) by blast
    have "cur ! i \<in> set cur" using that by (rule nth_mem)
    then have c: "cur ! i \<in> {0, 1, 2}" using assms(2) by blast
    from assms(1) [OF l c] obtain v
      where "t (cur ! nat ((int i - 1) mod int (length cur)), cur ! i) = Some v"
        and "v \<in> {0, 1, 2}" by blast
    then show ?thesis by (simp add: f_def)
  qed
  have len: "length new = length cur" by (simp add: new_def)
  have cells: "set new \<subseteq> {0, 1, 2}"
  proof
    fix x assume "x \<in> set new"
    then obtain i where "i < length cur" and "x = f i" by (auto simp add: new_def)
    then show "x \<in> {0, 1, 2}" using cell by blast
  qed
  have out: "\<forall>i<length cur.
      t (cur ! nat ((int i - 1) mod int (length cur)), cur ! i) = Some (new ! i)"
  proof (intro allI impI)
    fix i assume i: "i < length cur"
    then have "new ! i = f i" by (simp add: new_def)
    then show "t (cur ! nat ((int i - 1) mod int (length cur)), cur ! i) = Some (new ! i)"
      using cell [OF i] by simp
  qed
  from run len cells out show ?thesis by blast
qed

text \<open>
  The loop over the time steps, from any field whose last row is the current
  configuration: it returns, keeps the rows it had and adds one row per step, each
  the image of the row before it.
\<close>

lemma evolve_loop_ok:
  assumes "\<And>a b. a \<in> {0, 1, 2} \<Longrightarrow> b \<in> {0, 1, 2} \<Longrightarrow> \<exists>v. t (a, b) = Some v \<and> v \<in> {0, 1, 2}"
    and "set cur \<subseteq> {0, 1, 2}" and "length cur = L" and "field \<noteq> []" and "last field = cur"
  shows "\<exists>field'. evolve_loop n t L cur field = Inr field' \<and>
           length field' = length field + n \<and> take (length field) field' = field \<and>
           (\<forall>j. length field \<le> j \<and> j < length field + n \<longrightarrow>
              length (field' ! j) = L \<and> set (field' ! j) \<subseteq> {0, 1, 2} \<and>
              (\<forall>i<L. t (field' ! (j - 1) ! nat ((int i - 1) mod int L), field' ! (j - 1) ! i) =
                       Some (field' ! j ! i)))"
  using assms(2-5)
proof (induction n arbitrary: cur field)
  case 0
  have "evolve_loop 0 t L cur field = Inr field" by simp
  moreover have "\<forall>j. length field \<le> j \<and> j < length field + 0 \<longrightarrow>
      length (field ! j) = L \<and> set (field ! j) \<subseteq> {0, 1, 2} \<and>
      (\<forall>i<L. t (field ! (j - 1) ! nat ((int i - 1) mod int L), field ! (j - 1) ! i) =
               Some (field ! j ! i))"
    by (intro allI impI) arith
  ultimately show ?case by (intro exI [of _ field]) simp
next
  case (Suc n)
  from new_configuration_ok [of t cur, OF assms(1) Suc.prems(1)]
  obtain new where run: "new_configuration t (length cur) cur = Inr new"
    and len: "length new = length cur" and cells: "set new \<subseteq> {0, 1, 2}"
    and out: "\<forall>i<length cur.
        t (cur ! nat ((int i - 1) mod int (length cur)), cur ! i) = Some (new ! i)"
    by blast
  have "\<exists>field'. evolve_loop n t L new (field @ [new]) = Inr field' \<and>
           length field' = length (field @ [new]) + n \<and>
           take (length (field @ [new])) field' = field @ [new] \<and>
           (\<forall>j. length (field @ [new]) \<le> j \<and> j < length (field @ [new]) + n \<longrightarrow>
              length (field' ! j) = L \<and> set (field' ! j) \<subseteq> {0, 1, 2} \<and>
              (\<forall>i<L. t (field' ! (j - 1) ! nat ((int i - 1) mod int L), field' ! (j - 1) ! i) =
                       Some (field' ! j ! i)))"
    using cells len Suc.prems(2) by (intro Suc.IH) simp_all
  then obtain field' where ev: "evolve_loop n t L new (field @ [new]) = Inr field'"
    and flen: "length field' = Suc (length field) + n"
    and pre: "take (Suc (length field)) field' = field @ [new]"
    and rest: "\<forall>j. Suc (length field) \<le> j \<and> j < Suc (length field) + n \<longrightarrow>
              length (field' ! j) = L \<and> set (field' ! j) \<subseteq> {0, 1, 2} \<and>
              (\<forall>i<L. t (field' ! (j - 1) ! nat ((int i - 1) mod int L), field' ! (j - 1) ! i) =
                       Some (field' ! j ! i))"
    by auto
  have nth_pre: "field' ! k = (field @ [new]) ! k" if "k < Suc (length field)" for k
  proof -
    have "take (Suc (length field)) field' ! k = field' ! k" using that by simp
    then show ?thesis by (simp add: pre)
  qed
  have at_new: "field' ! length field = new"
    using nth_pre [of "length field"] by simp
  have at_cur: "field' ! (length field - 1) = cur"
  proof -
    have "field' ! (length field - 1) = (field @ [new]) ! (length field - 1)"
      by (rule nth_pre) simp
    also have "\<dots> = field ! (length field - 1)"
      using Suc.prems(3) by (simp add: nth_append)
    also have "\<dots> = cur"
      using Suc.prems(3,4) by (simp add: last_conv_nth)
    finally show ?thesis .
  qed
  have tk: "take (length field) field' = field"
  proof -
    have "take (length field) (take (Suc (length field)) field') = take (length field) field'"
      by simp
    then show ?thesis by (simp add: pre)
  qed
  have "evolve_loop (Suc n) t L cur field = Inr field'"
    using run ev Suc.prems(2) by simp
  moreover have "length field' = length field + Suc n" using flen by simp
  moreover have "\<forall>j. length field \<le> j \<and> j < length field + Suc n \<longrightarrow>
              length (field' ! j) = L \<and> set (field' ! j) \<subseteq> {0, 1, 2} \<and>
              (\<forall>i<L. t (field' ! (j - 1) ! nat ((int i - 1) mod int L), field' ! (j - 1) ! i) =
                       Some (field' ! j ! i))"
  proof (intro allI impI)
    fix j assume j: "length field \<le> j \<and> j < length field + Suc n"
    show "length (field' ! j) = L \<and> set (field' ! j) \<subseteq> {0, 1, 2} \<and>
          (\<forall>i<L. t (field' ! (j - 1) ! nat ((int i - 1) mod int L), field' ! (j - 1) ! i) =
                   Some (field' ! j ! i))"
    proof (cases "j = length field")
      case True
      show ?thesis
        using out len cells Suc.prems(2) at_cur by (simp add: True at_new)
    next
      case False
      with j have "Suc (length field) \<le> j \<and> j < Suc (length field) + n" by simp
      with rest show ?thesis by blast
    qed
  qed
  ultimately show ?case using tk by blast
qed

lemma bad_cell_iff: "bad_cell xs \<longleftrightarrow> \<not> set xs \<subseteq> {0, 1, 2}"
  by (auto simp add: bad_cell_def list_ex_iff)

text \<open>
  The whole function on valid arguments, with the table it uses: the result exists
  and has the properties of the loop.
\<close>

lemma spacetime_field_ok:
  assumes "0 \<le> r" and "r \<le> 19682" and "set config \<subseteq> {0, 1, 2}" and "0 \<le> n"
  shows "\<exists>t field. three_state_lookup_table r = Inr t \<and>
           three_state_spacetime_field r config (PyInt n) = Inr field \<and>
           length field = nat n + 1 \<and> field ! 0 = config \<and>
           (\<forall>j. 1 \<le> j \<and> j < nat n + 1 \<longrightarrow>
              length (field ! j) = length config \<and> set (field ! j) \<subseteq> {0, 1, 2} \<and>
              (\<forall>i<length config.
                 t (field ! (j - 1) ! nat ((int i - 1) mod int (length config)), field ! (j - 1) ! i) =
                 Some (field ! j ! i)))"
proof -
  obtain t where t: "three_state_lookup_table r = Inr t"
    using lookup_table_returns [OF assms(1,2)] by blast
  have tot: "\<And>a b. a \<in> {0, 1, 2} \<Longrightarrow> b \<in> {0, 1, 2} \<Longrightarrow> \<exists>v. t (a, b) = Some v \<and> v \<in> {0, 1, 2}"
    using lookup_table_total [OF assms(1,2) t] by blast
  from evolve_loop_ok [of t config "length config" "[config]" "nat n", OF tot assms(3)]
  obtain field where ev: "evolve_loop (nat n) t (length config) config [config] = Inr field"
    and len: "length field = 1 + nat n" and pre: "take (Suc 0) field = [config]"
    and rest: "\<forall>j. 1 \<le> j \<and> j < 1 + nat n \<longrightarrow>
              length (field ! j) = length config \<and> set (field ! j) \<subseteq> {0, 1, 2} \<and>
              (\<forall>i<length config.
                 t (field ! (j - 1) ! nat ((int i - 1) mod int (length config)), field ! (j - 1) ! i) =
                 Some (field ! j ! i))"
    by auto
  have "field ! 0 = config"
  proof -
    have "field ! 0 = take (Suc 0) field ! 0" by (rule nth_take [symmetric]) simp
    also have "\<dots> = config" by (simp only: pre nth_Cons_0)
    finally show ?thesis .
  qed
  moreover have "three_state_spacetime_field r config (PyInt n) = Inr field"
    using assms(3,4) t ev by (simp add: three_state_spacetime_field_def bad_cell_iff)
  ultimately show ?thesis using t len rest by simp
qed

section \<open>The store and the value view of the evolution engine\<close>

text \<open>
  The loop on the store computes the rows the loop on values computes, leaves every
  list that existed before untouched, and keeps the references the field already
  held.
\<close>

lemma evolve_loop_st_refines:
  assumes "\<And>a. a \<in> set field \<Longrightarrow> a < fresh h"
  shows "case evolve_loop_st n t L cur field h of
           Inl e \<Rightarrow> evolve_loop n t L (objs h cur) (map (objs h) field) = Inl e
         | Inr (h', field') \<Rightarrow>
             evolve_loop n t L (objs h cur) (map (objs h) field) = Inr (map (objs h') field') \<and>
             take (length field) field' = field \<and>
             (\<forall>a<fresh h. objs h' a = objs h a)"
  using assms
proof (induction n arbitrary: cur field h)
  case 0
  show ?case by simp
next
  case (Suc n)
  show ?case
  proof (cases "new_configuration t L (objs h cur)")
    case (Inl e)
    then show ?thesis by simp
  next
    case (Inr new)
    define h1 where "h1 = h\<lparr>objs := (objs h)(fresh h := new), fresh := Suc (fresh h)\<rparr>"
    have al: "alloc h new = (h1, fresh h)" by (simp add: alloc_def h1_def)
    have old: "objs h1 a = objs h a" if "a < fresh h" for a
      using that by (simp add: h1_def)
    have rows: "map (objs h1) (field @ [fresh h]) = map (objs h) field @ [new]"
      using Suc.prems by (auto simp add: h1_def)
    have at: "objs h1 (fresh h) = new" by (simp add: h1_def)
    have refs: "\<And>a. a \<in> set (field @ [fresh h]) \<Longrightarrow> a < fresh h1"
      using Suc.prems by (auto simp add: h1_def less_Suc_eq)
    have st: "evolve_loop_st (Suc n) t L cur field h =
              evolve_loop_st n t L (fresh h) (field @ [fresh h]) h1"
      by (simp add: Inr al)
    have pu: "evolve_loop (Suc n) t L (objs h cur) (map (objs h) field) =
              evolve_loop n t L (objs h1 (fresh h)) (map (objs h1) (field @ [fresh h]))"
      by (simp only: evolve_loop.simps Inr sum.case rows at)
    note ih = Suc.IH [of "field @ [fresh h]" h1 "fresh h", OF refs]
    show ?thesis
    proof (cases "evolve_loop_st n t L (fresh h) (field @ [fresh h]) h1")
      case (Inl e)
      with ih show ?thesis
        by (simp add: st pu del: evolve_loop_st.simps evolve_loop.simps)
    next
      case (Inr res)
      obtain h' field' where res: "res = (h', field')" by (cases res)
      from ih have ev: "evolve_loop n t L (objs h1 (fresh h)) (map (objs h1) (field @ [fresh h])) =
                        Inr (map (objs h') field')"
        and pre: "take (length (field @ [fresh h])) field' = field @ [fresh h]"
        and frame: "\<forall>a<fresh h1. objs h' a = objs h1 a"
        by (simp_all add: Inr res)
      have "take (length field) field' =
            take (length field) (take (length (field @ [fresh h])) field')"
        by (simp add: min_def)
      also have "\<dots> = take (length field) (field @ [fresh h])" by (simp only: pre)
      also have "\<dots> = field" by simp
      finally have tk: "take (length field) field' = field" .
      have fr: "\<forall>a<fresh h. objs h' a = objs h a"
      proof (intro allI impI)
        fix a assume a: "a < fresh h"
        then have "a < fresh h1" by (simp add: h1_def)
        with frame have "objs h' a = objs h1 a" by blast
        then show "objs h' a = objs h a" using old [OF a] by simp
      qed
      show ?thesis using ev tk fr
        by (simp add: st pu Inr res del: evolve_loop_st.simps evolve_loop.simps)
    qed
  qed
qed

text \<open>
  The function on the store returns the field the function on values returns, read
  from the store at that moment; the first reference of its field is the caller's.
\<close>

lemma spacetime_field_st_refines:
  assumes "init < fresh h"
  shows "case three_state_spacetime_field_st r init ts h of
           Inl e \<Rightarrow> three_state_spacetime_field r (objs h init) ts = Inl e
         | Inr (h', field) \<Rightarrow>
             three_state_spacetime_field r (objs h init) ts = Inr (read_field h' field) \<and>
             take 1 field = [init] \<and> (\<forall>a<fresh h. objs h' a = objs h a)"
proof (cases "check_time_steps ts")
  case (Inl e)
  then show ?thesis
    by (simp add: three_state_spacetime_field_st_def three_state_spacetime_field_def)
next
  case n: (Inr n)
  show ?thesis
  proof (cases "bad_cell (objs h init)")
    case True
    then show ?thesis
      by (simp add: three_state_spacetime_field_st_def three_state_spacetime_field_def n)
  next
    case False
    show ?thesis
    proof (cases "three_state_lookup_table r")
      case (Inl e)
      then show ?thesis using False
        by (simp add: three_state_spacetime_field_st_def three_state_spacetime_field_def n)
    next
      case t: (Inr t)
      define h1 where
        "h1 = h\<lparr>objs := (objs h)(fresh h := objs h init), fresh := Suc (fresh h)\<rparr>"
      have al: "alloc h (objs h init) = (h1, fresh h)" by (simp add: alloc_def h1_def)
      have cur: "objs h1 (fresh h) = objs h init" by (simp add: h1_def)
      have row0: "map (objs h1) [init] = [objs h init]" using assms by (simp add: h1_def)
      have refs: "\<And>a. a \<in> set [init] \<Longrightarrow> a < fresh h1" using assms by (simp add: h1_def)
      have st: "three_state_spacetime_field_st r init ts h =
                evolve_loop_st (nat n) t (length (objs h init)) (fresh h) [init] h1"
        using False by (simp add: three_state_spacetime_field_st_def n t al)
      have pu: "three_state_spacetime_field r (objs h init) ts =
                evolve_loop (nat n) t (length (objs h init)) (objs h1 (fresh h)) (map (objs h1) [init])"
        using False by (simp only: three_state_spacetime_field_def n t sum.case if_False cur row0)
      note loop = evolve_loop_st_refines
        [of "[init]" h1 "nat n" t "length (objs h init)" "fresh h", OF refs]
      show ?thesis
      proof (cases "evolve_loop_st (nat n) t (length (objs h init)) (fresh h) [init] h1")
        case (Inl e)
        with loop show ?thesis by (simp add: st pu)
      next
        case (Inr res)
        obtain h' field where res: "res = (h', field)" by (cases res)
        from loop have ev: "evolve_loop (nat n) t (length (objs h init)) (objs h1 (fresh h))
                              (map (objs h1) [init]) = Inr (map (objs h') field)"
          and pre: "take (length [init]) field = [init]"
          and frame: "\<forall>a<fresh h1. objs h' a = objs h1 a"
          by (simp_all add: Inr res)
        have fr: "\<forall>a<fresh h. objs h' a = objs h a"
        proof (intro allI impI)
          fix a assume a: "a < fresh h"
          then have "a < fresh h1" by (simp add: h1_def)
          with frame have "objs h' a = objs h1 a" by blast
          then show "objs h' a = objs h a" using a by (simp add: h1_def)
        qed
        show ?thesis using ev pre fr by (simp add: st pu Inr res read_field_def)
      qed
    qed
  qed
qed

section \<open>Properties of the simulator class\<close>

text \<open>Running \<open>a + b\<close> steps is running \<open>a\<close> steps and then, if none raised, \<open>b\<close> more.\<close>

lemma CA_evolve_loop_add:
  "CA_evolve_loop (a + b) ca =
     (case CA_evolve_loop a ca of
        (None, ca') \<Rightarrow> CA_evolve_loop b ca'
      | (Some e, ca') \<Rightarrow> (Some e, ca'))"
proof (induction a arbitrary: ca)
  case 0
  show ?case by simp
next
  case (Suc a)
  show ?case
    by (cases "new_configuration (lookup_table ca) (ca_length ca) (current_configuration ca)")
      (simp_all add: Suc.IH)
qed

text \<open>On an instance with a total table and a row of cells, the loop does not raise.\<close>

lemma CA_evolve_loop_ok:
  assumes "\<And>a b. a \<in> {0, 1, 2} \<Longrightarrow> b \<in> {0, 1, 2} \<Longrightarrow>
             \<exists>v. lookup_table ca (a, b) = Some v \<and> v \<in> {0, 1, 2}"
    and "set (current_configuration ca) \<subseteq> {0, 1, 2}"
    and "ca_length ca = length (current_configuration ca)"
  shows "\<exists>ca'. CA_evolve_loop n ca = (None, ca') \<and>
           length (spacetime ca') = length (spacetime ca) + n \<and>
           lookup_table ca' = lookup_table ca \<and>
           set (current_configuration ca') \<subseteq> {0, 1, 2} \<and>
           ca_length ca' = length (current_configuration ca')"
  using assms
proof (induction n arbitrary: ca)
  case 0
  then show ?case by simp
next
  case (Suc n)
  from new_configuration_ok [of "lookup_table ca" "current_configuration ca", OF Suc.prems(1,2)]
  obtain new where run: "new_configuration (lookup_table ca)
        (length (current_configuration ca)) (current_configuration ca) = Inr new"
    and len: "length new = length (current_configuration ca)"
    and cells: "set new \<subseteq> {0, 1, 2}"
    by blast
  define ca1 where "ca1 = ca\<lparr>current_configuration := new, spacetime := spacetime ca @ [new]\<rparr>"
  have step: "CA_evolve_loop (Suc n) ca = CA_evolve_loop n ca1"
    using run Suc.prems(3) by (simp add: ca1_def)
  have tot1: "\<And>a b. a \<in> {0, 1, 2} \<Longrightarrow> b \<in> {0, 1, 2} \<Longrightarrow>
             \<exists>v. lookup_table ca1 (a, b) = Some v \<and> v \<in> {0, 1, 2}"
    using Suc.prems(1) by (simp add: ca1_def)
  have cells1: "set (current_configuration ca1) \<subseteq> {0, 1, 2}"
    using cells by (simp add: ca1_def)
  have len1: "ca_length ca1 = length (current_configuration ca1)"
    using len Suc.prems(3) by (simp add: ca1_def)
  from Suc.IH [of ca1, OF tot1 cells1 len1]
  obtain ca' where "CA_evolve_loop n ca1 = (None, ca')"
    and "length (spacetime ca') = length (spacetime ca1) + n"
    and "lookup_table ca' = lookup_table ca1"
    and "set (current_configuration ca') \<subseteq> {0, 1, 2}"
    and "ca_length ca' = length (current_configuration ca')"
    by blast
  then show ?case by (simp add: step ca1_def del: CA_evolve_loop.simps)
qed

section \<open>Claims about the evolution engine\<close>

text \<open>
  C2 fails on the code: the field's row 0 is the caller's own list. Here the caller's
  list [1,0,2] lives at address 0; \<open>three_state_spacetime_field\<close> runs rule 0 for one
  step; then the caller sets element 0 of its list to 2, and row 0 of the returned
  field reads [2,0,2].
\<close>

theorem row0_shares_callers_list:
  "(case three_state_spacetime_field_st 0 0 (PyInt 1)
           \<lparr>objs = (\<lambda>a. [])(0 := [1, 0, 2]), fresh = 1\<rparr> of
      Inl e \<Rightarrow> None
    | Inr (h, field) \<Rightarrow>
        (case setitem h 0 0 2 of
           Inl e \<Rightarrow> None
         | Inr h' \<Rightarrow> Some (field, read_field h field, read_field h' field))) =
   Some ([0, 2], [[1, 0, 2], [0, 0, 0]], [[2, 0, 2], [0, 0, 0]])"
  by code_simp

text \<open>
  C4 fails on the code for a str: \<open>time_steps < 0\<close> raises TypeError before the
  conversion is tried, for a string that converts as for one that does not.
\<close>

theorem time_steps_str_raises_TypeError:
  "three_state_spacetime_field 0 [0, 1, 2] (PyStr ''5'') = Inl TypeError \<and>
   three_state_spacetime_field 0 [0, 1, 2] (PyStr ''abc'') = Inl TypeError"
  by (simp add: three_state_spacetime_field_def)

text \<open>
  C5. For a rule number in range, a row of cells of length at least 1 and at least one
  time step, cell \<open>i\<close> of row \<open>j + 1\<close> is the table's output for the neighborhood made
  of cell \<open>(i - 1) mod L\<close> and cell \<open>i\<close> of row \<open>j\<close>; for cell 0 the left component
  is cell \<open>L - 1\<close> of row \<open>j\<close>.
\<close>

theorem wraparound_update:
  assumes "0 \<le> r" and "r \<le> 19682" and "set config \<subseteq> {0, 1, 2}"
    and "1 \<le> length config" and "1 \<le> n" and "j < nat n" and "i < length config"
  shows "\<exists>t field. three_state_lookup_table r = Inr t \<and>
           three_state_spacetime_field r config (PyInt n) = Inr field \<and>
           dict_get t (field ! j ! nat ((int i - 1) mod int (length config)), field ! j ! i) =
             Inr (field ! (j + 1) ! i) \<and>
           dict_get t (field ! j ! (length config - 1), field ! j ! 0) =
             Inr (field ! (j + 1) ! 0)"
proof -
  have n0: "0 \<le> n" using assms(5) by simp
  from spacetime_field_ok [OF assms(1-3) n0]
  obtain t field where t: "three_state_lookup_table r = Inr t"
    and f: "three_state_spacetime_field r config (PyInt n) = Inr field"
    and rows: "\<forall>j. 1 \<le> j \<and> j < nat n + 1 \<longrightarrow>
              length (field ! j) = length config \<and> set (field ! j) \<subseteq> {0, 1, 2} \<and>
              (\<forall>i<length config.
                 t (field ! (j - 1) ! nat ((int i - 1) mod int (length config)), field ! (j - 1) ! i) =
                 Some (field ! j ! i))"
    by blast
  have "1 \<le> j + 1 \<and> j + 1 < nat n + 1" using assms(6) by simp
  with rows have out: "\<forall>i<length config.
      t (field ! (j + 1 - 1) ! nat ((int i - 1) mod int (length config)), field ! (j + 1 - 1) ! i) =
      Some (field ! (j + 1) ! i)"
    by blast
  have a: "t (field ! j ! nat ((int i - 1) mod int (length config)), field ! j ! i) =
           Some (field ! (j + 1) ! i)"
    using out assms(7) by simp
  have pos: "0 < int (length config)" using assms(4) by (cases config) simp_all
  have "(- 1) mod int (length config) = int (length config) - 1"
    using pos by (rule zmod_minus1)
  then have "nat ((int 0 - 1) mod int (length config)) = length config - 1" by simp
  moreover have "0 < length config" using assms(4) by (cases config) simp_all
  ultimately have b: "t (field ! j ! (length config - 1), field ! j ! 0) =
                      Some (field ! (j + 1) ! 0)"
    using out by (metis add_diff_cancel_right')
  show ?thesis using t f a b by (simp add: dict_get_def)
qed

theorem wraparound_update_witness:
  "(0::int) \<le> 8711 \<and> (8711::int) \<le> 19682 \<and> set [1, 0, 2, 1, 0] \<subseteq> {0, 1, 2::int} \<and>
   1 \<le> length [1, 0, 2, 1, 0::int] \<and> (1::int) \<le> 2 \<and> (1::nat) < nat 2 \<and>
   (0::nat) < length [1, 0, 2, 1, 0::int] \<and>
   (\<exists>t field. three_state_lookup_table 8711 = Inr t \<and>
      three_state_spacetime_field 8711 [1, 0, 2, 1, 0] (PyInt 2) = Inr field \<and>
      dict_get t (field ! 1 ! 4, field ! 1 ! 0) = Inr (field ! 2 ! 0))"
proof -
  have "\<exists>t field. three_state_lookup_table 8711 = Inr t \<and>
      three_state_spacetime_field 8711 [1, 0, 2, 1, 0] (PyInt 2) = Inr field \<and>
      dict_get t (field ! 1 ! nat ((int 0 - 1) mod int (length [1, 0, 2, 1, 0::int])),
                  field ! 1 ! 0) = Inr (field ! (1 + 1) ! 0) \<and>
      dict_get t (field ! 1 ! (length [1, 0, 2, 1, 0::int] - 1), field ! 1 ! 0) =
        Inr (field ! (1 + 1) ! 0)"
    by (rule wraparound_update) simp_all
  then show ?thesis by (auto simp add: eval_nat_numeral)
qed

text \<open>
  C6. For a rule number in range, a row of cells and a non-negative number of time
  steps \<open>n\<close>, the function returns a field of \<open>n + 1\<close> rows whose row 0 is the initial
  configuration.
\<close>

theorem row_count_and_row0:
  assumes "0 \<le> r" and "r \<le> 19682" and "set config \<subseteq> {0, 1, 2}" and "0 \<le> n"
  shows "\<exists>field. three_state_spacetime_field r config (PyInt n) = Inr field \<and>
           length field = nat n + 1 \<and> field ! 0 = config"
  using spacetime_field_ok [OF assms] by blast

theorem row_count_and_row0_witness:
  "(0::int) \<le> 8711 \<and> (8711::int) \<le> 19682 \<and> set [1, 0, 2, 1, 0] \<subseteq> {0, 1, 2::int} \<and>
   (0::int) \<le> 2 \<and>
   (\<exists>field. three_state_spacetime_field 8711 [1, 0, 2, 1, 0] (PyInt 2) = Inr field \<and>
      length field = 3 \<and> field ! 0 = [1, 0, 2, 1, 0])"
proof -
  have "\<exists>field. three_state_spacetime_field 8711 [1, 0, 2, 1, 0] (PyInt 2) = Inr field \<and>
      length field = nat 2 + 1 \<and> field ! 0 = [1, 0, 2, 1, 0]"
    by (rule row_count_and_row0) simp_all
  then show ?thesis by simp
qed

text \<open>
  C7. For a rule number in range, a row of cells and a non-negative number of time
  steps, every cell of every row of the returned field is 0, 1 or 2, and every row is
  as long as the initial configuration.
\<close>

theorem cells_and_row_lengths:
  assumes "0 \<le> r" and "r \<le> 19682" and "set config \<subseteq> {0, 1, 2}" and "0 \<le> n"
  shows "\<exists>field. three_state_spacetime_field r config (PyInt n) = Inr field \<and>
           (\<forall>row \<in> set field. set row \<subseteq> {0, 1, 2} \<and> length row = length config)"
proof -
  from spacetime_field_ok [OF assms]
  obtain field where f: "three_state_spacetime_field r config (PyInt n) = Inr field"
    and len: "length field = nat n + 1" and r0: "field ! 0 = config"
    and rows: "\<forall>j. 1 \<le> j \<and> j < nat n + 1 \<longrightarrow>
              length (field ! j) = length config \<and> set (field ! j) \<subseteq> {0, 1, 2}"
    by blast
  have "set row \<subseteq> {0, 1, 2} \<and> length row = length config" if "row \<in> set field" for row
  proof -
    from that obtain j where j: "j < length field" and row: "row = field ! j"
      by (auto simp add: in_set_conv_nth)
    show ?thesis
    proof (cases "j = 0")
      case True
      then show ?thesis using assms(3) by (simp add: row r0)
    next
      case False
      then have "1 \<le> j \<and> j < nat n + 1" using j len by simp
      with rows show ?thesis by (simp add: row)
    qed
  qed
  then show ?thesis using f by blast
qed

theorem cells_and_row_lengths_witness:
  "(0::int) \<le> 8711 \<and> (8711::int) \<le> 19682 \<and> set [1, 0, 2, 1, 0] \<subseteq> {0, 1, 2::int} \<and>
   (0::int) \<le> 2 \<and>
   (\<exists>field. three_state_spacetime_field 8711 [1, 0, 2, 1, 0] (PyInt 2) = Inr field \<and>
      (\<forall>row \<in> set field. set row \<subseteq> {0, 1, 2} \<and> length row = 5))"
proof -
  have "\<exists>field. three_state_spacetime_field 8711 [1, 0, 2, 1, 0] (PyInt 2) = Inr field \<and>
      (\<forall>row \<in> set field. set row \<subseteq> {0, 1, 2} \<and> length row = length [1, 0, 2, 1, 0::int])"
    by (rule cells_and_row_lengths) simp_all
  then show ?thesis by (simp add: eval_nat_numeral)
qed

section \<open>Claims about the simulator class\<close>

text \<open>
  C9. On an instance made from a rule number in range and a row of cells,
  \<open>evolve(a)\<close> followed by \<open>evolve(b)\<close>, for non-negative ints \<open>a\<close> and \<open>b\<close>, both
  return, and leave the field with \<open>a + b + 1\<close> rows, the same field as one
  \<open>evolve(a + b)\<close> on a new instance leaves.
\<close>

theorem evolve_accumulates:
  assumes "0 \<le> r" and "r \<le> 19682" and "set config \<subseteq> {0, 1, 2}" and "0 \<le> a" and "0 \<le> b"
  shows "\<exists>ca0 ca1 ca2 ca3.
           CA_init r config = Inr ca0 \<and>
           evolve ca0 (PyInt a) = (None, ca1) \<and>
           evolve ca1 (PyInt b) = (None, ca2) \<and>
           evolve ca0 (PyInt (a + b)) = (None, ca3) \<and>
           spacetime ca2 = spacetime ca3 \<and>
           length (spacetime ca2) = nat (a + b) + 1"
proof -
  obtain t where t: "three_state_lookup_table r = Inr t"
    using lookup_table_returns [OF assms(1,2)] by blast
  define ca0 where "ca0 = \<lparr>lookup_table = t, initial = config, spacetime = [config],
                            current_configuration = config, ca_length = length config\<rparr>"
  have init: "CA_init r config = Inr ca0"
    using assms(3) by (simp add: CA_init_def bad_cell_iff t ca0_def)
  have tot: "\<And>x y. x \<in> {0, 1, 2} \<Longrightarrow> y \<in> {0, 1, 2} \<Longrightarrow>
               \<exists>v. lookup_table ca0 (x, y) = Some v \<and> v \<in> {0, 1, 2}"
    using lookup_table_total [OF assms(1,2) t] by (simp add: ca0_def)
  have cells: "set (current_configuration ca0) \<subseteq> {0, 1, 2}"
    using assms(3) by (simp add: ca0_def)
  have len: "ca_length ca0 = length (current_configuration ca0)" by (simp add: ca0_def)
  from CA_evolve_loop_ok [of ca0 "nat a", OF tot cells len]
  obtain ca1 where l1: "CA_evolve_loop (nat a) ca0 = (None, ca1)"
    and n1: "length (spacetime ca1) = length (spacetime ca0) + nat a"
    and t1: "lookup_table ca1 = lookup_table ca0"
    and c1: "set (current_configuration ca1) \<subseteq> {0, 1, 2}"
    and k1: "ca_length ca1 = length (current_configuration ca1)"
    by blast
  have tot1: "\<And>x y. x \<in> {0, 1, 2} \<Longrightarrow> y \<in> {0, 1, 2} \<Longrightarrow>
               \<exists>v. lookup_table ca1 (x, y) = Some v \<and> v \<in> {0, 1, 2}"
    using tot by (simp add: t1)
  from CA_evolve_loop_ok [of ca1 "nat b", OF tot1 c1 k1]
  obtain ca2 where l2: "CA_evolve_loop (nat b) ca1 = (None, ca2)"
    and n2: "length (spacetime ca2) = length (spacetime ca1) + nat b"
    by blast
  have "nat (a + b) = nat a + nat b" using assms(4,5) by (simp add: nat_add_distrib)
  then have l3: "CA_evolve_loop (nat (a + b)) ca0 = (None, ca2)"
    by (simp add: CA_evolve_loop_add l1 l2)
  have e1: "evolve ca0 (PyInt a) = (None, ca1)" using assms(4) l1 by (simp add: evolve_def)
  have e2: "evolve ca1 (PyInt b) = (None, ca2)" using assms(5) l2 by (simp add: evolve_def)
  have e3: "evolve ca0 (PyInt (a + b)) = (None, ca2)"
    using assms(4,5) l3 by (simp add: evolve_def)
  have "length (spacetime ca2) = nat (a + b) + 1"
    using n1 n2 assms(4,5) by (simp add: ca0_def nat_add_distrib)
  with init e1 e2 e3 show ?thesis by blast
qed

theorem evolve_accumulates_witness:
  "(0::int) \<le> 8711 \<and> (8711::int) \<le> 19682 \<and> set [1, 0, 2, 1, 0] \<subseteq> {0, 1, 2::int} \<and>
   (0::int) \<le> 1 \<and> (0::int) \<le> 2 \<and>
   (\<exists>ca0 ca1 ca2 ca3.
      CA_init 8711 [1, 0, 2, 1, 0] = Inr ca0 \<and>
      evolve ca0 (PyInt 1) = (None, ca1) \<and>
      evolve ca1 (PyInt 2) = (None, ca2) \<and>
      evolve ca0 (PyInt 3) = (None, ca3) \<and>
      spacetime ca2 = spacetime ca3 \<and>
      length (spacetime ca2) = 4)"
proof -
  have "\<exists>ca0 ca1 ca2 ca3.
      CA_init 8711 [1, 0, 2, 1, 0] = Inr ca0 \<and>
      evolve ca0 (PyInt 1) = (None, ca1) \<and>
      evolve ca1 (PyInt 2) = (None, ca2) \<and>
      evolve ca0 (PyInt (1 + 2)) = (None, ca3) \<and>
      spacetime ca2 = spacetime ca3 \<and>
      length (spacetime ca2) = nat (1 + 2) + 1"
    by (rule evolve_accumulates) simp_all
  then show ?thesis by simp
qed

text \<open>
  C10. For any instance, \<open>evolve\<close> with a negative int raises the ValueError for
  \<open>time_steps\<close> and leaves the instance, its field and its current configuration
  included, as it was.
\<close>

theorem evolve_negative_unchanged:
  assumes "n < 0"
  shows "evolve self (PyInt n) =
         (Some (ValueError ''time_steps must be a non-negative integer''), self)"
  using assms by (simp add: evolve_def)

theorem evolve_negative_unchanged_witness:
  "(- 1 :: int) < 0 \<and>
   evolve \<lparr>lookup_table = Map.empty, initial = [0, 1, 2], spacetime = [[0, 1, 2], [1, 1, 1]],
           current_configuration = [1, 1, 1], ca_length = 3\<rparr> (PyInt (- 1)) =
   (Some (ValueError ''time_steps must be a non-negative integer''),
    \<lparr>lookup_table = Map.empty, initial = [0, 1, 2], spacetime = [[0, 1, 2], [1, 1, 1]],
     current_configuration = [1, 1, 1], ca_length = 3\<rparr>)"
  using evolve_negative_unchanged [of "- 1"] by simp

end
